theory Spec2Isabelle
  imports Complex_Main
begin

section \<open>Strings of the Python source\<close>

text \<open>
  A Python \<open>str\<close> is modelled as a HOL \<open>string\<close>; one \<open>char\<close> stands for one code
  point below 256, so \<open>length\<close> is Python's \<open>len\<close> on such strings. The library
  functions the source calls on strings (\<open>lower\<close>, \<open>in\<close>, \<open>startswith\<close>, \<open>replace\<close>,
  \<open>split\<close>, \<open>join\<close>) are modelled from their documented behaviour.
\<close>

definition lower_char :: "char \<Rightarrow> char" where
  "lower_char c =
     (let n = (of_char c :: nat)
      in if (65 \<le> n \<and> n \<le> 90) \<or> (192 \<le> n \<and> n \<le> 222 \<and> n \<noteq> 215)
         then char_of (n + 32) else c)"

definition lower :: "string \<Rightarrow> string" where
  "lower s = map lower_char s"

text \<open>\<open>startswith s p\<close> is Python's \<open>s.startswith(p)\<close>.\<close>

fun startswith :: "string \<Rightarrow> string \<Rightarrow> bool" where
  "startswith s [] = True"
| "startswith [] (p # ps) = False"
| "startswith (c # cs) (p # ps) = (c = p \<and> startswith cs ps)"

text \<open>\<open>py_in p s\<close> is Python's \<open>p in s\<close> on strings: \<open>p\<close> occurs in \<open>s\<close> as a substring.\<close>

fun py_in :: "string \<Rightarrow> string \<Rightarrow> bool" where
  "py_in p [] = (p = [])"
| "py_in p (c # cs) = (startswith (c # cs) p \<or> py_in p cs)"

text \<open>\<open>replace_Key s\<close> is \<open>s.replace('Key.', '')\<close>: every occurrence, left to right.\<close>

function replace_Key :: "string \<Rightarrow> string" where
  "replace_Key s =
     (if startswith s ''Key.'' then replace_Key (drop 4 s)
      else (case s of [] \<Rightarrow> [] | c # cs \<Rightarrow> c # replace_Key cs))"
  by pat_completeness auto
termination
proof (relation "measure length")
  show "wf (measure length)" by simp
next
  fix s :: string
  assume "startswith s ''Key.''"
  then have "s \<noteq> []" by (cases s) auto
  then show "(drop 4 s, s) \<in> measure length" by simp
next
  fix s :: string and c cs
  assume "s = c # cs"
  then show "(cs, s) \<in> measure length" by simp
qed

declare replace_Key.simps [simp del]

section \<open>The keystroke logger (src/modules/keystroke\_logger.py)\<close>

text \<open>
  A key event of pynput carries either a \<open>KeyCode\<close> (attribute \<open>char\<close>, which may
  be absent, and the library's own string form of the key) or a member of the enumeration
  \<open>Key\<close>, whose string form is \<open>Key.\<close> followed by the member's name and which has no
  attribute \<open>char\<close>.
\<close>

datatype key = KeyCode (char: "string option") (repr: string) | Key (name: string)

definition str_key :: "key \<Rightarrow> string" where
  "str_key k = (case k of KeyCode c r \<Rightarrow> r | Key n \<Rightarrow> ''Key.'' @ n)"

text \<open>\<open>has_char k\<close> is the test \<open>hasattr(key, 'char') and key.char\<close>.\<close>

definition has_char :: "key \<Rightarrow> bool" where
  "has_char k = (case k of KeyCode (Some c) r \<Rightarrow> c \<noteq> [] | KeyCode None r \<Rightarrow> False | Key n \<Rightarrow> False)"

text \<open>
  The callable registered by \<open>start\<close>; the repository registers the bound method
  \<open>IntegrityAssistant.on_keystroke\<close> and nothing else. \<open>None\<close> is Python's \<open>None\<close>.
\<close>

datatype callback = OnKeystroke

record KeystrokeLogger =
  running :: bool
  callback :: "callback option"
  buffer :: string
  last_timestamp :: real
  sensitive_mode :: bool

definition sensitive_prefixes :: "string list" where
  "sensitive_prefixes =
     [''password'', ''passwd'', ''pwd'', ''pin'', ''credit'', ''card'',
      ''cvv'', ''ssn'', ''social'', ''secret'']"

text \<open>\<open>__init__\<close>; \<open>now\<close> is the reading of \<open>time.time()\<close>.\<close>

definition init_logger :: "real \<Rightarrow> KeystrokeLogger" where
  "init_logger now =
     \<lparr>running = False, callback = None, buffer = [], last_timestamp = now,
      sensitive_mode = False\<rparr>"

definition start_logger :: "callback option \<Rightarrow> KeystrokeLogger \<Rightarrow> KeystrokeLogger" where
  "start_logger callback_function lg =
     (if running lg then lg else lg\<lparr>running := True, callback := callback_function\<rparr>)"

text \<open>The loop of \<open>_check_sensitive_context\<close> over the prefixes, with its early return.\<close>

fun check_prefixes :: "string list \<Rightarrow> string \<Rightarrow> KeystrokeLogger \<Rightarrow> KeystrokeLogger" where
  "check_prefixes [] lower_buffer lg = lg"
| "check_prefixes (prefix # rest) lower_buffer lg =
     (if py_in prefix lower_buffer then lg\<lparr>sensitive_mode := True\<rparr>
      else check_prefixes rest lower_buffer lg)"

definition check_sensitive_context :: "KeystrokeLogger \<Rightarrow> KeystrokeLogger" where
  "check_sensitive_context lg = check_prefixes sensitive_prefixes (lower (buffer lg)) lg"

text \<open>
  \<open>_flush_buffer\<close>. The second component is the argument the callback is called with, if
  it is called; \<open>now\<close> is the reading of \<open>time.time()\<close> at the reset.
\<close>

definition flush_buffer :: "real \<Rightarrow> KeystrokeLogger \<Rightarrow> KeystrokeLogger \<times> string option" where
  "flush_buffer now lg =
     (lg\<lparr>buffer := [], last_timestamp := now\<rparr>,
      if buffer lg \<noteq> [] \<and> callback lg \<noteq> None then Some (buffer lg) else None)"

text \<open>
  The string a pressed key is turned into, before the sensitive-mode override: the
  character of the key, or else its string form without \<open>Key.\<close>, in brackets.
\<close>

definition bracketed :: "key \<Rightarrow> string" where
  "bracketed k = ''['' @ replace_Key (str_key k) @ '']''"

definition key_token :: "key \<Rightarrow> string" where
  "key_token k =
     (case k of
        KeyCode (Some c) r \<Rightarrow> (if c \<noteq> [] then c else bracketed k)
      | KeyCode None r \<Rightarrow> bracketed k
      | Key n \<Rightarrow> bracketed k)"

text \<open>
  \<open>_on_key_press\<close>, in its two parts. \<open>append_key\<close> is the first: the sensitive-context
  check, the key's string, the override by the mask in sensitive mode, and the update of
  the buffer; it returns the logger and \<open>key_str\<close>. \<open>on_key_press\<close> adds the test of
  \<open>self.running\<close> before it and the flush test after it. \<open>current_time\<close> is the clock
  reading of the flush test and \<open>flush_time\<close> the later one inside \<open>_flush_buffer\<close>. No
  statement of the \<open>try\<close> block raises in this model, so the \<open>except\<close> branch has no
  counterpart.
\<close>

definition append_key :: "key \<Rightarrow> KeystrokeLogger \<Rightarrow> KeystrokeLogger \<times> string" where
  "append_key k lg =
     (let lg1 = check_sensitive_context lg;
          key_str = (if sensitive_mode lg1 then ''*'' else key_token k)
      in (lg1\<lparr>buffer := buffer lg1 @ key_str\<rparr>, key_str))"

definition on_key_press ::
  "key \<Rightarrow> real \<Rightarrow> real \<Rightarrow> KeystrokeLogger \<Rightarrow> KeystrokeLogger \<times> string option" where
  "on_key_press k current_time flush_time lg =
     (if \<not> running lg then (lg, None)
      else
        let (lg2, key_str) = append_key k lg
        in if current_time - last_timestamp lg2 > 1 \<or> startswith key_str ''[''
              \<or> length (buffer lg2) > 20
           then flush_buffer flush_time lg2 else (lg2, None))"

text \<open>\<open>_active_keys\<close>: the keys currently held, as the source computes them.\<close>

definition active_keys :: "KeystrokeLogger \<Rightarrow> key list" where
  "active_keys lg = []"

definition on_key_release ::
  "key \<Rightarrow> real \<Rightarrow> KeystrokeLogger \<Rightarrow> KeystrokeLogger \<times> string option" where
  "on_key_release k flush_time lg =
     (let (lg1, out) = (if k = Key ''enter'' \<or> k = Key ''tab''
                        then flush_buffer flush_time lg else (lg, None));
          lg2 = (if k = Key ''tab'' \<and> Key ''shift'' \<in> set (active_keys lg1)
                 then lg1\<lparr>sensitive_mode := False\<rparr> else lg1)
      in (lg2, out))"

definition stop_logger :: "real \<Rightarrow> KeystrokeLogger \<Rightarrow> KeystrokeLogger \<times> string option" where
  "stop_logger flush_time lg =
     (let lg1 = lg\<lparr>running := False\<rparr>
      in if buffer lg1 \<noteq> [] then flush_buffer flush_time lg1 else (lg1, None))"

section \<open>Text extraction (src/modules/screen\_capture.py)\<close>

text \<open>Python's \<open>str.isspace\<close> on one code point below 256.\<close>

definition isspace :: "char \<Rightarrow> bool" where
  "isspace c =
     (let n = (of_char c :: nat)
      in (9 \<le> n \<and> n \<le> 13) \<or> (28 \<le> n \<and> n \<le> 32) \<or> n = 133 \<or> n = 160)"

text \<open>
  \<open>text.split()\<close>: the maximal runs of non-whitespace characters, in order. The first
  argument of \<open>split_from\<close> is the word read so far.
\<close>

fun split_from :: "string \<Rightarrow> string \<Rightarrow> string list" where
  "split_from w [] = (if w = [] then [] else [w])"
| "split_from w (c # cs) =
     (if isspace c then (if w = [] then split_from [] cs else w # split_from [] cs)
      else split_from (w @ [c]) cs)"

definition py_split :: "string \<Rightarrow> string list" where
  "py_split s = split_from [] s"

text \<open>\<open>sep.join(ws)\<close>.\<close>

fun py_join :: "string \<Rightarrow> string list \<Rightarrow> string" where
  "py_join sep [] = []"
| "py_join sep [w] = w"
| "py_join sep (w # v # ws) = w @ sep @ py_join sep (v # ws)"

datatype exn = Exception string

text \<open>
  \<open>extract_text\<close>. The OCR engine \<open>pytesseract.image_to_string\<close> is a parameter: it
  returns the recognised text or raises.
\<close>

definition extract_text :: "('img \<Rightarrow> exn + string) \<Rightarrow> 'img option \<Rightarrow> string" where
  "extract_text image_to_string image_opt =
     (case image_opt of
        None \<Rightarrow> []
      | Some img \<Rightarrow>
          (case image_to_string img of
             Inl e \<Rightarrow> []
           | Inr text \<Rightarrow> py_join '' '' (py_split text)))"

section \<open>The application (src/main.py)\<close>

text \<open>
  The two buffers are Python lists, which are objects: a field or a dictionary value holds
  a reference to the list, and \<open>append\<close> and \<open>pop\<close> change the object that every
  holder of the reference sees. The store \<open>heap\<close> maps the address of a list object to
  its present contents. The entries are dictionaries that nothing changes once they are
  built, so they are values.
\<close>

type_synonym addr = nat

datatype entry =
    ScreenTextEntry (timestamp: string) (entry_text: string)
  | KeystrokeEntry (timestamp: string) (content: string)

record IntegrityAssistant =
  app_running :: bool
  keystroke_logger :: KeystrokeLogger
  screen_texts :: addr
  keystrokes :: addr
  heap :: "addr \<Rightarrow> entry list"

text \<open>\<open>__init__\<close>: two fresh empty lists.\<close>

definition init_app :: "real \<Rightarrow> IntegrityAssistant" where
  "init_app now =
     \<lparr>app_running = False, keystroke_logger = init_logger now,
      screen_texts = 0, keystrokes = 1, heap = (\<lambda>a. [])\<rparr>"

text \<open>
  One iteration of the loop of \<open>run_screen_capture\<close>, after its test of \<open>self.running\<close>;
  \<open>image_opt\<close> is what \<open>capture()\<close> returned and \<open>stamp\<close> what \<open>time.strftime\<close> returns.
\<close>

definition capture_cycle ::
  "('img \<Rightarrow> exn + string) \<Rightarrow> 'img option \<Rightarrow> string \<Rightarrow> IntegrityAssistant \<Rightarrow> IntegrityAssistant" where
  "capture_cycle image_to_string image_opt stamp s =
     (let text = extract_text image_to_string image_opt
      in if text \<noteq> [] then
           let a = screen_texts s;
               h1 = (heap s)(a := heap s a @ [ScreenTextEntry stamp text]);
               h2 = (if length (h1 a) > 30 then h1(a := tl (h1 a)) else h1)
           in s\<lparr>heap := h2\<rparr>
         else s)"

definition on_keystroke :: "string \<Rightarrow> string \<Rightarrow> IntegrityAssistant \<Rightarrow> IntegrityAssistant" where
  "on_keystroke stamp key_event s =
     (let a = keystrokes s;
          h1 = (heap s)(a := heap s a @ [KeystrokeEntry stamp key_event]);
          h2 = (if length (h1 a) > 100 then h1(a := tl (h1 a)) else h1)
      in s\<lparr>heap := h2\<rparr>)"

text \<open>
  The data block \<open>submit_query\<close> builds and hands to \<open>api_client.send_query\<close>. Its two
  context values are the references held by the fields \<open>screen_texts\<close> and \<open>keystrokes\<close>.
\<close>

record data_block =
  user_query :: string
  ctx_screen_texts :: addr
  ctx_recent_keystrokes :: addr
  meta_user_id :: "string option"
  meta_timestamp :: string

definition submit_query ::
  "string \<Rightarrow> string option \<Rightarrow> string \<Rightarrow> IntegrityAssistant \<Rightarrow> data_block" where
  "submit_query query_text uid stamp s =
     \<lparr>user_query = query_text, ctx_screen_texts = screen_texts s,
      ctx_recent_keystrokes = keystrokes s, meta_user_id = uid, meta_timestamp = stamp\<rparr>"

text \<open>What a reader of the data block finds in it when the store is that of \<open>s\<close>.\<close>

definition block_screen_texts :: "IntegrityAssistant \<Rightarrow> data_block \<Rightarrow> entry list" where
  "block_screen_texts s b = heap s (ctx_screen_texts b)"

definition block_recent_keystrokes :: "IntegrityAssistant \<Rightarrow> data_block \<Rightarrow> entry list" where
  "block_recent_keystrokes s b = heap s (ctx_recent_keystrokes b)"

subsection \<open>The running system\<close>

text \<open>
  The capture thread, the key listener and the calls of \<open>start\<close> and \<open>stop\<close> interleave;
  a run is a sequence of events, each carrying what its handler reads from the
  environment (the captured image, clock readings, the formatted time).
\<close>

datatype 'img event =
    Start
  | Capture "'img option" string
  | KeyPress key real real string
  | KeyRelease key real string
  | Stop real string

text \<open>The call of the registered callback with the flushed text, if the flush made one.\<close>

definition deliver :: "string \<Rightarrow> string option \<Rightarrow> IntegrityAssistant \<Rightarrow> IntegrityAssistant" where
  "deliver stamp out s = (case out of None \<Rightarrow> s | Some key_event \<Rightarrow> on_keystroke stamp key_event s)"

definition with_logger ::
  "string \<Rightarrow> KeystrokeLogger \<times> string option \<Rightarrow> IntegrityAssistant \<Rightarrow> IntegrityAssistant" where
  "with_logger stamp r s = deliver stamp (snd r) (s\<lparr>keystroke_logger := fst r\<rparr>)"

fun step :: "('img \<Rightarrow> exn + string) \<Rightarrow> 'img event \<Rightarrow> IntegrityAssistant \<Rightarrow> IntegrityAssistant" where
  "step ocr Start s =
     (if app_running s then s
      else s\<lparr>app_running := True,
             keystroke_logger := start_logger (Some OnKeystroke) (keystroke_logger s)\<rparr>)"
| "step ocr (Capture image_opt stamp) s =
     (if app_running s then capture_cycle ocr image_opt stamp s else s)"
| "step ocr (KeyPress k current_time flush_time stamp) s =
     with_logger stamp (on_key_press k current_time flush_time (keystroke_logger s)) s"
| "step ocr (KeyRelease k flush_time stamp) s =
     with_logger stamp (on_key_release k flush_time (keystroke_logger s)) s"
| "step ocr (Stop flush_time stamp) s =
     with_logger stamp (stop_logger flush_time (keystroke_logger s)) (s\<lparr>app_running := False\<rparr>)"

fun run :: "('img \<Rightarrow> exn + string) \<Rightarrow> 'img event list \<Rightarrow> IntegrityAssistant \<Rightarrow> IntegrityAssistant" where
  "run ocr [] s = s"
| "run ocr (e # es) s = run ocr es (step ocr e s)"

section \<open>Notions used in the statements\<close>

text \<open>A sensitive marker occurs in the lowercased pending text.\<close>

definition marker_present :: "string \<Rightarrow> bool" where
  "marker_present b = (\<exists>p \<in> set sensitive_prefixes. py_in p (lower b))"

text \<open>The contents of the two buffers in a state.\<close>

definition screen_text_buffer :: "IntegrityAssistant \<Rightarrow> entry list" where
  "screen_text_buffer s = heap s (screen_texts s)"

definition keystroke_buffer :: "IntegrityAssistant \<Rightarrow> entry list" where
  "keystroke_buffer s = heap s (keystrokes s)"

text \<open>Concrete inputs: the key of a printable character, an OCR engine that always fails,
  and the run that starts the application and types \<open>password\<close> without a pause.\<close>

definition char_key :: "char \<Rightarrow> key" where
  "char_key c = KeyCode (Some [c]) [CHR 0x27, c, CHR 0x27]"

definition no_ocr :: "unit \<Rightarrow> exn + string" where
  "no_ocr u = Inl (Exception ''no engine'')"

definition type_password :: "unit event list" where
  "type_password =
     [Start,
      KeyPress (char_key CHR ''p'') 0 0 ''T'', KeyPress (char_key CHR ''a'') 0 0 ''T'',
      KeyPress (char_key CHR ''s'') 0 0 ''T'', KeyPress (char_key CHR ''s'') 0 0 ''T'',
      KeyPress (char_key CHR ''w'') 0 0 ''T'', KeyPress (char_key CHR ''o'') 0 0 ''T'',
      KeyPress (char_key CHR ''r'') 0 0 ''T'', KeyPress (char_key CHR ''d'') 0 0 ''T'']"

definition password_typed :: IntegrityAssistant where
  "password_typed =
     \<lparr>app_running = True,
      keystroke_logger =
        \<lparr>running = True, callback = Some OnKeystroke, buffer = ''password'',
         last_timestamp = 0, sensitive_mode = False\<rparr>,
      screen_texts = 0, keystrokes = 1, heap = (\<lambda>a. [])\<rparr>"

text \<open>The last \<open>n\<close> elements of a list, in their order.\<close>

definition last_n :: "nat \<Rightarrow> 'a list \<Rightarrow> 'a list" where
  "last_n n xs = drop (length xs - n) xs"

text \<open>
  The entries an event hands to \<open>append\<close>, and the history of a run: all entries
  appended to a buffer by the events of the run, oldest first, evictions ignored.
\<close>

definition screen_appended ::
  "('img \<Rightarrow> exn + string) \<Rightarrow> 'img event \<Rightarrow> IntegrityAssistant \<Rightarrow> entry list" where
  "screen_appended ocr e s =
     (case e of
        Capture image_opt stamp \<Rightarrow>
          (if app_running s \<and> extract_text ocr image_opt \<noteq> []
           then [ScreenTextEntry stamp (extract_text ocr image_opt)] else [])
      | _ \<Rightarrow> [])"

definition flushed_entry :: "string \<Rightarrow> KeystrokeLogger \<times> string option \<Rightarrow> entry list" where
  "flushed_entry stamp r = (case snd r of None \<Rightarrow> [] | Some c \<Rightarrow> [KeystrokeEntry stamp c])"

definition keystroke_appended :: "'img event \<Rightarrow> IntegrityAssistant \<Rightarrow> entry list" where
  "keystroke_appended e s =
     (case e of
        KeyPress k t tf stamp \<Rightarrow> flushed_entry stamp (on_key_press k t tf (keystroke_logger s))
      | KeyRelease k tf stamp \<Rightarrow> flushed_entry stamp (on_key_release k tf (keystroke_logger s))
      | Stop tf stamp \<Rightarrow> flushed_entry stamp (stop_logger tf (keystroke_logger s))
      | _ \<Rightarrow> [])"

fun screen_history ::
  "('img \<Rightarrow> exn + string) \<Rightarrow> 'img event list \<Rightarrow> IntegrityAssistant \<Rightarrow> entry list" where
  "screen_history ocr [] s = []"
| "screen_history ocr (e # es) s = screen_appended ocr e s @ screen_history ocr es (step ocr e s)"

fun keystroke_history ::
  "('img \<Rightarrow> exn + string) \<Rightarrow> 'img event list \<Rightarrow> IntegrityAssistant \<Rightarrow> entry list" where
  "keystroke_history ocr [] s = []"
| "keystroke_history ocr (e # es) s =
     keystroke_appended e s @ keystroke_history ocr es (step ocr e s)"

text \<open>An entry of the right kind for its buffer, with a non-empty body.\<close>

definition nonempty_screen_entry :: "entry \<Rightarrow> bool" where
  "nonempty_screen_entry e =
     (case e of ScreenTextEntry ts t \<Rightarrow> t \<noteq> [] | KeystrokeEntry ts c \<Rightarrow> False)"

definition nonempty_keystroke_entry :: "entry \<Rightarrow> bool" where
  "nonempty_keystroke_entry e =
     (case e of ScreenTextEntry ts t \<Rightarrow> False | KeystrokeEntry ts c \<Rightarrow> c \<noteq> [])"

text \<open>
  More concrete inputs: an OCR engine for images that are their own text, and a short run
  with one capture and one key.
\<close>

definition text_ocr :: "string \<Rightarrow> exn + string" where
  "text_ocr img = Inr img"

definition sample_run :: "string event list" where
  "sample_run =
     [Start, Capture (Some ''A'') ''U'', KeyPress (char_key CHR ''x'') 0 0 ''T'', Stop 1 ''V'']"

text \<open>
  The presses of the characters of a string, one event each; \<open>env\<close> gives each press its
  two clock readings and its formatted time.
\<close>

definition press_chars :: "string \<Rightarrow> (real \<times> real \<times> string) list \<Rightarrow> 'img event list" where
  "press_chars cs env = map (\<lambda>(c, t, tf, st). KeyPress (char_key c) t tf st) (zip cs env)"

definition quick_env :: "(real \<times> real \<times> string) list" where
  "quick_env = replicate 11 (1 / 2, 3 / 4, ''T'')"

text \<open>
  The normalisation of the OCR output in the words of the specification, to compare
  \<open>extract_text\<close> with: every run of whitespace is collapsed into a single space, and
  leading and trailing whitespace is trimmed.
\<close>

function collapse_runs :: "string \<Rightarrow> string" where
  "collapse_runs [] = []"
| "collapse_runs (c # cs) =
     (if isspace c then CHR '' '' # collapse_runs (dropWhile isspace cs)
      else c # collapse_runs cs)"
  by pat_completeness auto
termination
  by (relation "measure length") (auto simp: less_Suc_eq_le length_dropWhile_le)

definition trim_right :: "string \<Rightarrow> string" where
  "trim_right s = rev (dropWhile isspace (rev s))"

definition trim :: "string \<Rightarrow> string" where
  "trim s = trim_right (dropWhile isspace s)"

definition spec_normalize :: "string \<Rightarrow> string" where
  "spec_normalize s = trim (collapse_runs s)"

text \<open>
  What a key press does in the sensitive state, stated without the handler and without
  the key: the mask is appended to the pending text, which then is flushed (handed to
  the callback, if there is one) when the time or the length calls for it, and stays
  pending otherwise.
\<close>

definition masked_press ::
  "real \<Rightarrow> real \<Rightarrow> KeystrokeLogger \<Rightarrow> KeystrokeLogger \<times> string option" where
  "masked_press current_time flush_time lg =
     (let pending = buffer lg @ ''*''
      in if current_time - last_timestamp lg > 1 \<or> length pending > 20
         then (lg\<lparr>sensitive_mode := True, buffer := [], last_timestamp := flush_time\<rparr>,
               if callback lg \<noteq> None then Some pending else None)
         else (lg\<lparr>sensitive_mode := True, buffer := pending\<rparr>, None))"

text \<open>
  A text recorded after the latch was triggered with \<open>b0\<close> pending: masks only, or \<open>b0\<close>
  followed by masks only.
\<close>

definition stars_after :: "string \<Rightarrow> string \<Rightarrow> bool" where
  "stars_after b0 c =
     (list_all (\<lambda>x. x = CHR ''*'') c \<or>
      (length b0 \<le> length c \<and> take (length b0) c = b0 \<and>
       list_all (\<lambda>x. x = CHR ''*'') (drop (length b0) c)))"

definition masked_entry :: "string \<Rightarrow> entry \<Rightarrow> bool" where
  "masked_entry b0 e =
     (case e of ScreenTextEntry ts t \<Rightarrow> False | KeystrokeEntry ts c \<Rightarrow> stars_after b0 c)"

section \<open>The sensitive-context check and the masking of keys\<close>

lemma check_prefixes_eq:
  "check_prefixes ps lb lg =
     (if (\<exists>p \<in> set ps. py_in p lb) then lg\<lparr>sensitive_mode := True\<rparr> else lg)"
  by (induction ps) auto

lemma check_sensitive_context_eq:
  "check_sensitive_context lg =
     (if marker_present (buffer lg) then lg\<lparr>sensitive_mode := True\<rparr> else lg)"
  by (simp add: check_sensitive_context_def marker_present_def check_prefixes_eq)

lemma append_key_masked:
  assumes "sensitive_mode lg \<or> marker_present (buffer lg)"
  shows "append_key k lg = (lg\<lparr>sensitive_mode := True, buffer := buffer lg @ ''*''\<rparr>, ''*'')"
  using assms by (auto simp: append_key_def check_sensitive_context_eq Let_def)

lemma append_key_literal:
  assumes "\<not> sensitive_mode lg" and "\<not> marker_present (buffer lg)"
  shows "append_key k lg = (lg\<lparr>buffer := buffer lg @ key_token k\<rparr>, key_token k)"
  using assms by (simp add: append_key_def check_sensitive_context_eq Let_def)

lemma has_char_token: "\<not> has_char k \<Longrightarrow> key_token k = bracketed k"
  by (auto simp: has_char_def key_token_def split: key.splits option.splits)

subsection \<open>Every handler keeps sensitive mode once it is on\<close>

lemma flush_buffer_sensitive:
  "sensitive_mode (fst (flush_buffer now lg)) = sensitive_mode lg"
  by (simp add: flush_buffer_def)

lemma on_key_press_sensitive:
  "sensitive_mode lg \<Longrightarrow> sensitive_mode (fst (on_key_press k t tf lg))"
  by (simp add: on_key_press_def append_key_masked flush_buffer_sensitive)

lemma on_key_release_sensitive:
  "sensitive_mode lg \<Longrightarrow> sensitive_mode (fst (on_key_release k tf lg))"
  by (simp add: on_key_release_def active_keys_def flush_buffer_sensitive)

lemma stop_logger_sensitive:
  "sensitive_mode lg \<Longrightarrow> sensitive_mode (fst (stop_logger tf lg))"
  by (simp add: stop_logger_def Let_def flush_buffer_sensitive)

lemma start_logger_sensitive:
  "sensitive_mode lg \<Longrightarrow> sensitive_mode (start_logger cb lg)"
  by (simp add: start_logger_def)

lemma on_keystroke_logger [simp]:
  "keystroke_logger (on_keystroke stamp c s) = keystroke_logger s"
  by (simp add: on_keystroke_def Let_def)

lemma with_logger_logger [simp]:
  "keystroke_logger (with_logger stamp r s) = fst r"
  by (cases r) (simp add: with_logger_def deliver_def split: option.splits)

lemma capture_cycle_logger [simp]:
  "keystroke_logger (capture_cycle ocr i stamp s) = keystroke_logger s"
  by (simp add: capture_cycle_def Let_def)

lemma step_sensitive:
  "sensitive_mode (keystroke_logger s) \<Longrightarrow> sensitive_mode (keystroke_logger (step ocr e s))"
  by (cases e)
     (simp_all add: on_key_press_sensitive on_key_release_sensitive stop_logger_sensitive
        start_logger_sensitive)

lemma run_sensitive:
  "sensitive_mode (keystroke_logger s) \<Longrightarrow> sensitive_mode (keystroke_logger (run ocr evs s))"
  by (induction evs arbitrary: s) (simp_all add: step_sensitive)

lemma run_append: "run ocr (es @ fs) s = run ocr fs (run ocr es s)"
  by (induction es arbitrary: s) simp_all

subsection \<open>Evaluating concrete runs\<close>

lemmas eval_defs = with_logger_def deliver_def on_key_press_def append_key_def
  check_sensitive_context_def sensitive_prefixes_def lower_def lower_char_def key_token_def
  bracketed_def str_key_def replace_Key.simps init_app_def init_logger_def start_logger_def
  flush_buffer_def on_keystroke_def on_key_release_def active_keys_def stop_logger_def
  char_key_def Let_def

lemma run_type_password: "run no_ocr type_password (init_app 0) = password_typed"
  by (simp add: type_password_def password_typed_def eval_defs)

lemma password_typed_marker: "marker_present (buffer (keystroke_logger password_typed))"
  by (simp add: password_typed_def marker_present_def sensitive_prefixes_def lower_def
      lower_char_def)

section \<open>Claims about the keystroke logger\<close>

text \<open>
  C9. Once \<open>sensitive_mode\<close> is true, no event of the running system sets it back to
  false: not a key press, not a key release (that of Tab included), not a flush, not
  \<open>start\<close> or \<open>stop\<close>, not a capture cycle. The held-key query \<open>_active_keys\<close> returns the
  empty list in every state, so the test for Shift in \<open>_on_key_release\<close> never succeeds.
\<close>

theorem sensitive_mode_never_cleared:
  "active_keys lg = [] \<and>
   (sensitive_mode (keystroke_logger s) \<longrightarrow>
      sensitive_mode (keystroke_logger (run ocr evs s)))"
  by (simp add: active_keys_def run_sensitive)

theorem sensitive_mode_never_cleared_witness:
  "sensitive_mode (keystroke_logger (step no_ocr (KeyPress (char_key CHR ''1'') 0 0 ''T'') password_typed)) \<and>
   sensitive_mode (keystroke_logger
     (run no_ocr
        [KeyPress (Key ''shift'') 0 0 ''T'', KeyPress (Key ''tab'') 0 0 ''T'',
         KeyRelease (Key ''tab'') 0 ''T'', KeyRelease (Key ''shift'') 0 ''T'',
         KeyPress (char_key CHR ''a'') 2 2 ''T'', Stop 3 ''T'', Start]
        (step no_ocr (KeyPress (char_key CHR ''1'') 0 0 ''T'') password_typed)))"
proof -
  have h: "sensitive_mode (keystroke_logger
      (step no_ocr (KeyPress (char_key CHR ''1'') 0 0 ''T'') password_typed))"
    by (simp add: password_typed_def eval_defs)
  from sensitive_mode_never_cleared
    [of "init_logger 0" "step no_ocr (KeyPress (char_key CHR ''1'') 0 0 ''T'') password_typed" no_ocr]
    h
  show ?thesis by blast
qed

text \<open>
  C4, as the code has it. A flush empties the pending text and sets the time of the last
  flush to the present clock reading; it leaves \<open>sensitive_mode\<close> (and \<open>running\<close> and
  the callback) as they were. The two handlers that flush whatever the key string is, the
  key release and \<open>stop\<close>, leave \<open>sensitive_mode\<close> as it was too.
\<close>

theorem flush_buffer_resets_text_and_time:
  "buffer (fst (flush_buffer now lg)) = [] \<and>
   last_timestamp (fst (flush_buffer now lg)) = now \<and>
   sensitive_mode (fst (flush_buffer now lg)) = sensitive_mode lg \<and>
   running (fst (flush_buffer now lg)) = running lg \<and>
   callback (fst (flush_buffer now lg)) = callback lg \<and>
   sensitive_mode (fst (on_key_release k now lg)) = sensitive_mode lg \<and>
   sensitive_mode (fst (stop_logger now lg)) = sensitive_mode lg"
  by (simp add: flush_buffer_def on_key_release_def active_keys_def stop_logger_def Let_def)

text \<open>
  C4 as stated fails: after \<open>password\<close> and one more key, the logger is in sensitive mode,
  and a flush leaves it there.
\<close>

theorem flush_buffer_keeps_sensitive_mode:
  "sensitive_mode (fst (flush_buffer 1 (keystroke_logger
     (run no_ocr (type_password @ [KeyPress (char_key CHR ''1'') 0 0 ''T'']) (init_app 0)))))"
  by (simp add: run_append run_type_password) (simp add: password_typed_def eval_defs)

subsection \<open>What is recorded once the latch is on\<close>

lemma stars_after_Nil [simp]: "stars_after b0 []"
  by (simp add: stars_after_def)

lemma stars_after_self [simp]: "stars_after b0 b0"
  by (simp add: stars_after_def)

lemma stars_after_star: "stars_after b0 c \<Longrightarrow> stars_after b0 (c @ ''*'')"
  by (auto simp: stars_after_def)

lemma on_key_press_masked:
  assumes "running lg" and "sensitive_mode lg \<or> marker_present (buffer lg)"
  shows "on_key_press k t tf lg = masked_press t tf lg"
  using assms
  by (simp add: on_key_press_def append_key_masked masked_press_def flush_buffer_def Let_def)

lemma on_key_press_idle: "\<not> running lg \<Longrightarrow> on_key_press k t tf lg = (lg, None)"
  by (simp add: on_key_press_def)

lemma masked_press_latched:
  assumes "stars_after b0 (buffer lg)"
  shows "sensitive_mode (fst (masked_press t tf lg)) \<and>
         stars_after b0 (buffer (fst (masked_press t tf lg))) \<and>
         (\<forall>x \<in> set (flushed_entry st (masked_press t tf lg)). masked_entry b0 x)"
  using assms stars_after_star [of b0 "buffer lg"]
  by (auto simp: masked_press_def Let_def flushed_entry_def masked_entry_def)

lemma flush_latched:
  assumes "stars_after b0 (buffer lg)"
  shows "stars_after b0 (buffer (fst (flush_buffer now lg))) \<and>
         (\<forall>x \<in> set (flushed_entry st (flush_buffer now lg)). masked_entry b0 x)"
  using assms by (auto simp: flush_buffer_def flushed_entry_def masked_entry_def)

lemma step_latched:
  assumes "sensitive_mode (keystroke_logger s)" and "stars_after b0 (buffer (keystroke_logger s))"
  shows "stars_after b0 (buffer (keystroke_logger (step ocr e s))) \<and>
         (\<forall>x \<in> set (keystroke_appended e s). masked_entry b0 x)"
proof (cases e)
  case (KeyPress k t tf st)
  show ?thesis
  proof (cases "running (keystroke_logger s)")
    case True
    then show ?thesis
      using KeyPress assms masked_press_latched [OF assms(2), of t tf st]
      by (simp add: keystroke_appended_def on_key_press_masked)
  next
    case False
    then show ?thesis
      using KeyPress assms by (simp add: keystroke_appended_def on_key_press_idle flushed_entry_def)
  qed
next
  case (KeyRelease k tf st)
  then show ?thesis
    using assms(2) flush_latched [OF assms(2), of tf st]
    by (auto simp: keystroke_appended_def on_key_release_def active_keys_def flushed_entry_def Let_def)
next
  case (Stop tf st)
  have "stars_after b0 (buffer ((keystroke_logger s)\<lparr>running := False\<rparr>))"
    using assms(2) by simp
  from flush_latched [OF this, of tf st] show ?thesis
    using Stop assms(2)
    by (auto simp: keystroke_appended_def stop_logger_def flushed_entry_def Let_def)
qed (use assms in \<open>simp_all add: keystroke_appended_def start_logger_def\<close>)

lemma run_latched:
  assumes "sensitive_mode (keystroke_logger s)" and "stars_after b0 (buffer (keystroke_logger s))"
  shows "stars_after b0 (buffer (keystroke_logger (run ocr evs s))) \<and>
         (\<forall>x \<in> set (keystroke_history ocr evs s). masked_entry b0 x)"
  using assms
proof (induction evs arbitrary: s)
  case Nil
  then show ?case by simp
next
  case (Cons e es)
  have "sensitive_mode (keystroke_logger (step ocr e s))"
    using Cons.prems(1) by (rule step_sensitive)
  moreover note step_latched [OF Cons.prems, of ocr e]
  ultimately show ?case
    using Cons.IH [of "step ocr e s"] by auto
qed

text \<open>
  C3. Let a key press be processed by a running logger whose pending text holds a
  sensitive marker. The handler of that press does exactly what \<open>masked_press\<close> says: it
  appends the mask \<open>*\<close>, whatever the key, turns sensitive mode on, and flushes or keeps
  the masked text. After any further events whatever, sensitive mode is still on, a
  flush leaves it on, and the handler of any further press again does exactly what
  \<open>masked_press\<close> says when the logger is running, and nothing when it is not. The
  pending text is then the text that was pending at the trigger followed by masks, or
  masks only; and so is the content of every entry that the trigger press and the events
  after it hand to the keystroke buffer. No key pressed from the trigger on is recorded as
  its character or its bracketed name.
\<close>

theorem redaction_latch:
  assumes "running (keystroke_logger s)"
    and "marker_present (buffer (keystroke_logger s))"
  shows "on_key_press k t tf (keystroke_logger s) = masked_press t tf (keystroke_logger s) \<and>
         fst (append_key k (keystroke_logger s)) =
           (keystroke_logger s)\<lparr>sensitive_mode := True,
              buffer := buffer (keystroke_logger s) @ ''*''\<rparr> \<and>
         (let lg = keystroke_logger (run ocr evs (step ocr (KeyPress k t tf st) s))
          in sensitive_mode lg \<and> sensitive_mode (fst (flush_buffer now lg)) \<and>
             append_key k' lg = (lg\<lparr>buffer := buffer lg @ ''*''\<rparr>, ''*'') \<and>
             on_key_press k' t' tf' lg =
               (if running lg then masked_press t' tf' lg else (lg, None)) \<and>
             stars_after (buffer (keystroke_logger s)) (buffer lg)) \<and>
         (\<forall>x \<in> set (keystroke_history ocr (KeyPress k t tf st # evs) s).
            masked_entry (buffer (keystroke_logger s)) x)"
proof -
  let ?lg0 = "keystroke_logger s"
  let ?s1 = "step ocr (KeyPress k t tf st) s"
  have p: "on_key_press k t tf ?lg0 = masked_press t tf ?lg0"
    using assms by (simp add: on_key_press_masked)
  have a: "append_key k ?lg0 =
      (?lg0\<lparr>sensitive_mode := True, buffer := buffer ?lg0 @ ''*''\<rparr>, ''*'')"
    using assms(2) by (simp add: append_key_masked)
  note m = masked_press_latched [of "buffer ?lg0" ?lg0 t tf st, simplified]
  have s1: "sensitive_mode (keystroke_logger ?s1)"
    "stars_after (buffer ?lg0) (buffer (keystroke_logger ?s1))"
    using m by (simp_all add: p)
  have h1: "\<forall>x \<in> set (keystroke_appended (KeyPress k t tf st) s). masked_entry (buffer ?lg0) x"
    using m by (simp add: keystroke_appended_def p)
  have b: "sensitive_mode (keystroke_logger (run ocr evs ?s1))"
    using s1(1) by (rule run_sensitive)
  note r = run_latched [OF s1, of ocr evs]
  have c: "on_key_press k' t' tf' lg = (if running lg then masked_press t' tf' lg else (lg, None))"
    if "sensitive_mode lg" for lg
    using that by (simp add: on_key_press_masked on_key_press_idle)
  have h: "\<forall>x \<in> set (keystroke_history ocr (KeyPress k t tf st # evs) s).
      masked_entry (buffer ?lg0) x"
    using h1 r by auto
  show ?thesis
    using p a b r c [OF b] h
    by (simp add: Let_def append_key_masked flush_buffer_sensitive del: step.simps keystroke_history.simps)
qed


theorem redaction_latch_witness:
  "running (keystroke_logger password_typed) \<and>
   marker_present (buffer (keystroke_logger password_typed)) \<and>
   buffer (fst (on_key_press (char_key CHR ''1'') 0 0 (keystroke_logger password_typed))) =
     ''password*'' \<and>
   snd (on_key_press (char_key CHR ''2'') 5 6
     (keystroke_logger (run no_ocr [KeyRelease (Key ''enter'') 1 ''T'']
        (step no_ocr (KeyPress (char_key CHR ''1'') 0 0 ''T'') password_typed)))) = Some ''*'' \<and>
   masked_entry ''password'' (KeystrokeEntry ''T'' ''password*'')"
proof -
  let ?lg = "keystroke_logger (run no_ocr [KeyRelease (Key ''enter'') 1 ''T'']
      (step no_ocr (KeyPress (char_key CHR ''1'') 0 0 ''T'') password_typed))"
  have r: "running (keystroke_logger password_typed)"
    by (simp add: password_typed_def)
  note rl = redaction_latch [OF r password_typed_marker, where k = "char_key CHR ''1''"
      and t = 0 and tf = 0 and ocr = no_ocr and evs = "[KeyRelease (Key ''enter'') 1 ''T'']"
      and st = "''T''" and now = 0 and k' = "char_key CHR ''2''" and t' = 5 and tf' = 6,
      unfolded Let_def]
  have e: "?lg = \<lparr>running = True, callback = Some OnKeystroke, buffer = [],
      last_timestamp = 1, sensitive_mode = True\<rparr>"
    by (simp add: password_typed_def eval_defs)
  have 1: "on_key_press (char_key CHR ''1'') 0 0 (keystroke_logger password_typed) =
      masked_press 0 0 (keystroke_logger password_typed)"
    using rl by blast
  have 2: "on_key_press (char_key CHR ''2'') 5 6 ?lg =
      (if running ?lg then masked_press 5 6 ?lg else (?lg, None))"
    using rl by blast
  have 3: "\<forall>x \<in> set (keystroke_history no_ocr
      [KeyPress (char_key CHR ''1'') 0 0 ''T'', KeyRelease (Key ''enter'') 1 ''T''] password_typed).
      masked_entry (buffer (keystroke_logger password_typed)) x"
    using rl by blast
  have h: "keystroke_history no_ocr
      [KeyPress (char_key CHR ''1'') 0 0 ''T'', KeyRelease (Key ''enter'') 1 ''T''] password_typed =
      [KeystrokeEntry ''T'' ''password*'']"
    by (simp add: keystroke_appended_def flushed_entry_def password_typed_def eval_defs)
  have 4: "masked_entry ''password'' (KeystrokeEntry ''T'' ''password*'')"
    using 3 unfolding h by (simp add: password_typed_def)
  have 5: "buffer (fst (on_key_press (char_key CHR ''1'') 0 0 (keystroke_logger password_typed))) =
      ''password*''"
    by (simp only: 1) (simp add: masked_press_def password_typed_def)
  have 6: "snd (on_key_press (char_key CHR ''2'') 5 6 ?lg) = Some ''*''"
    using 2 unfolding e by (simp add: masked_press_def)
  show ?thesis
    using r password_typed_marker 4 5 6 by blast
qed

text \<open>
  C5, as the code has it. When the logger is running, has its callback, and is not in
  sensitive mode after the check of the press (the mode is off and the pending text holds
  no marker), the press of a key that has no character is flushed at once: the pending
  text is emptied and the last entry of the keystroke buffer holds the pending text
  followed by the key's bracketed name. Releasing Enter flushes: whatever text is pending
  is passed to the callback, if there is any, and the pending text is emptied.
\<close>

theorem special_key_press_flushes:
  assumes "running (keystroke_logger s)"
    and "callback (keystroke_logger s) \<noteq> None"
    and "\<not> sensitive_mode (keystroke_logger s)"
    and "\<not> marker_present (buffer (keystroke_logger s))"
    and "\<not> has_char k"
  shows "(let s' = step ocr (KeyPress k t tf st) s
          in keystroke_logger s' = (keystroke_logger s)\<lparr>buffer := [], last_timestamp := tf\<rparr> \<and>
             last (keystroke_buffer s') =
               KeystrokeEntry st (buffer (keystroke_logger s) @ bracketed k)) \<and>
         on_key_release (Key ''enter'') tf' lg =
           (lg\<lparr>buffer := [], last_timestamp := tf'\<rparr>,
            if buffer lg \<noteq> [] \<and> callback lg \<noteq> None then Some (buffer lg) else None)"
proof -
  let ?lg = "keystroke_logger s"
  let ?s1 = "s\<lparr>keystroke_logger := ?lg\<lparr>buffer := [], last_timestamp := tf\<rparr>\<rparr>"
  have "on_key_press k t tf ?lg =
          (?lg\<lparr>buffer := [], last_timestamp := tf\<rparr>, Some (buffer ?lg @ bracketed k))"
    using assms
    by (simp add: on_key_press_def append_key_literal has_char_token bracketed_def
        flush_buffer_def)
  then have "step ocr (KeyPress k t tf st) s = on_keystroke st (buffer ?lg @ bracketed k) ?s1"
    by (simp add: with_logger_def deliver_def)
  moreover have "keystrokes (on_keystroke st c s0) = keystrokes s0" for c s0
    by (simp add: on_keystroke_def Let_def)
  moreover have "last (heap (on_keystroke st c ?s1) (keystrokes s)) = KeystrokeEntry st c"
    for c
    by (cases "heap s (keystrokes s)") (simp_all add: on_keystroke_def Let_def)
  ultimately show ?thesis
    by (simp add: Let_def keystroke_buffer_def on_key_release_def flush_buffer_def
        active_keys_def)
qed

theorem special_key_press_flushes_witness:
  "running (keystroke_logger (step no_ocr Start (init_app 0))) \<and>
   callback (keystroke_logger (step no_ocr Start (init_app 0))) \<noteq> None \<and>
   \<not> sensitive_mode (keystroke_logger (step no_ocr Start (init_app 0))) \<and>
   \<not> marker_present (buffer (keystroke_logger (step no_ocr Start (init_app 0)))) \<and>
   \<not> has_char (Key ''enter'') \<and>
   last (keystroke_buffer
     (step no_ocr (KeyPress (Key ''enter'') 5 6 ''T'') (step no_ocr Start (init_app 0)))) =
     KeystrokeEntry ''T'' ''[enter]''"
proof -
  let ?s = "step no_ocr Start (init_app 0)"
  have h1: "running (keystroke_logger ?s)"
    and h2: "callback (keystroke_logger ?s) \<noteq> None"
    and h3: "\<not> sensitive_mode (keystroke_logger ?s)"
    and h4: "\<not> marker_present (buffer (keystroke_logger ?s))"
    and h5: "\<not> has_char (Key ''enter'')"
    by (simp_all add: init_app_def init_logger_def start_logger_def marker_present_def
        sensitive_prefixes_def lower_def has_char_def)
  have b: "bracketed (Key ''enter'') = ''[enter]''"
    by (simp add: bracketed_def str_key_def replace_Key.simps)
  from special_key_press_flushes [OF h1 h2 h3 h4 h5, of no_ocr 5 6 "''T''" 0 "init_logger 0"]
  have "last (keystroke_buffer (step no_ocr (KeyPress (Key ''enter'') 5 6 ''T'') ?s)) =
      KeystrokeEntry ''T'' (buffer (keystroke_logger ?s) @ bracketed (Key ''enter''))"
    by (simp add: Let_def)
  then show ?thesis
    using h1 h2 h3 h4 h5 b by (simp add: init_app_def init_logger_def start_logger_def)
qed

text \<open>
  C5 as stated fails: Enter pressed right after \<open>password\<close> is recorded as the mask, no
  entry is produced, and the text stays pending.
\<close>

theorem masked_enter_press_makes_no_entry:
  "keystroke_buffer
     (run no_ocr (type_password @ [KeyPress (Key ''enter'') 0 0 ''T'']) (init_app 0)) = [] \<and>
   buffer (keystroke_logger
     (run no_ocr (type_password @ [KeyPress (Key ''enter'') 0 0 ''T'']) (init_app 0))) =
     ''password*''"
  by (simp add: run_append run_type_password)
     (simp add: password_typed_def keystroke_buffer_def eval_defs)

text \<open>
  C2 at a concrete run. After \<open>password\<close> is typed, Shift is pressed, Tab is pressed and
  released while Shift is still held, Shift is released, and \<open>a\<close> is pressed. The logger
  is still in sensitive mode and \<open>a\<close> is recorded as the mask.
\<close>

theorem shift_tab_release_stays_sensitive:
  "sensitive_mode (keystroke_logger
     (run no_ocr
        (type_password @
         [KeyPress (Key ''shift'') 0 0 ''T'', KeyPress (Key ''tab'') 0 0 ''T'',
          KeyRelease (Key ''tab'') 0 ''T'', KeyRelease (Key ''shift'') 0 ''T'',
          KeyPress (char_key CHR ''a'') 0 0 ''T'']) (init_app 0))) \<and>
   buffer (keystroke_logger
     (run no_ocr
        (type_password @
         [KeyPress (Key ''shift'') 0 0 ''T'', KeyPress (Key ''tab'') 0 0 ''T'',
          KeyRelease (Key ''tab'') 0 ''T'', KeyRelease (Key ''shift'') 0 ''T'',
          KeyPress (char_key CHR ''a'') 0 0 ''T'']) (init_app 0))) = ''*''"
  by (simp add: run_append run_type_password) (simp add: password_typed_def eval_defs)

section \<open>Claims about the two buffers\<close>

lemma last_n_last_n: "last_n n (last_n n xs @ ys) = last_n n (xs @ ys)"
proof -
  have "length xs + length ys - (length xs - n + n) + (length xs - n) = length xs + length ys - n"
    by arith
  then show ?thesis by (auto simp: last_n_def)
qed

lemma last_n_id: "length xs \<le> n \<Longrightarrow> last_n n xs = xs"
  by (simp add: last_n_def)

lemma length_last_n: "length (last_n n xs) \<le> n"
  by (simp add: last_n_def)

lemma set_last_n: "set (last_n n xs) \<subseteq> set xs"
  by (simp add: last_n_def set_drop_subset)

text \<open>Appending and then popping the front when over capacity keeps the last \<open>n\<close>.\<close>

lemma push_evict:
  "(if length (xs @ [e]) > n then tl (xs @ [e]) else xs @ [e]) = last_n n (xs @ [e])"
  if "length xs \<le> n"
proof (cases "length xs = n")
  case True
  then have "length (xs @ [e]) - n = Suc 0" by simp
  then have a: "last_n n (xs @ [e]) = drop (Suc 0) (xs @ [e])" by (simp only: last_n_def)
  have b: "drop (Suc 0) zs = tl zs" for zs :: "'a list" by (simp add: drop_Suc)
  have "n < length (xs @ [e])" using True by simp
  then show ?thesis by (simp only: a b if_True)
next
  case False
  then show ?thesis using that by (simp add: last_n_def)
qed

lemma step_addrs [simp]:
  "screen_texts (step ocr e s) = screen_texts s" "keystrokes (step ocr e s) = keystrokes s"
  by (cases e; simp add: capture_cycle_def with_logger_def deliver_def on_keystroke_def Let_def
      split: option.splits)+

lemma run_addrs [simp]:
  "screen_texts (run ocr evs s) = screen_texts s" "keystrokes (run ocr evs s) = keystrokes s"
  by (induction evs arbitrary: s) simp_all

lemma step_screen:
  assumes "screen_texts s \<noteq> keystrokes s" and "length (screen_text_buffer s) \<le> 30"
  shows "screen_text_buffer (step ocr e s) =
           last_n 30 (screen_text_buffer s @ screen_appended ocr e s)"
proof (cases e)
  case (Capture i st)
  then show ?thesis
    using assms(2) push_evict [of "heap s (screen_texts s)" 30]
    by (auto simp: screen_text_buffer_def screen_appended_def capture_cycle_def Let_def last_n_id)
qed (use assms in \<open>auto simp: screen_text_buffer_def screen_appended_def with_logger_def
      deliver_def on_keystroke_def Let_def last_n_id split: option.splits\<close>)

lemma step_keys:
  assumes "screen_texts s \<noteq> keystrokes s" and "length (keystroke_buffer s) \<le> 100"
  shows "keystroke_buffer (step ocr e s) =
           last_n 100 (keystroke_buffer s @ keystroke_appended e s)"
proof -
  have d: "keystroke_buffer (with_logger st r s') =
      last_n 100 (keystroke_buffer s' @ flushed_entry st r)"
    if "length (keystroke_buffer s') \<le> 100" for st r s'
    using that push_evict [of "heap s' (keystrokes s')" 100]
    by (auto simp: keystroke_buffer_def with_logger_def deliver_def flushed_entry_def
        on_keystroke_def Let_def last_n_id split: option.splits)
  show ?thesis
  proof (cases e)
    case (Capture i st)
    then show ?thesis
      using assms
      by (auto simp: keystroke_buffer_def keystroke_appended_def capture_cycle_def Let_def
          last_n_id)
  next
    case (Stop tf st)
    have "keystroke_buffer (s\<lparr>app_running := False\<rparr>) = keystroke_buffer s"
      by (simp add: keystroke_buffer_def)
    then show ?thesis
      using Stop assms(2) d [of "s\<lparr>app_running := False\<rparr>" st]
      by (simp add: keystroke_appended_def)
  qed (use assms d in \<open>auto simp: keystroke_appended_def last_n_id keystroke_buffer_def\<close>)
qed

lemma run_buffers:
  assumes "screen_texts s \<noteq> keystrokes s"
    and "length (screen_text_buffer s) \<le> 30" and "length (keystroke_buffer s) \<le> 100"
  shows "screen_text_buffer (run ocr evs s) =
           last_n 30 (screen_text_buffer s @ screen_history ocr evs s) \<and>
         keystroke_buffer (run ocr evs s) =
           last_n 100 (keystroke_buffer s @ keystroke_history ocr evs s)"
  using assms
proof (induction evs arbitrary: s)
  case Nil
  then show ?case by (simp add: last_n_id)
next
  case (Cons e es)
  have 1: "screen_text_buffer (step ocr e s) =
      last_n 30 (screen_text_buffer s @ screen_appended ocr e s)"
    using Cons.prems by (simp add: step_screen)
  have 2: "keystroke_buffer (step ocr e s) =
      last_n 100 (keystroke_buffer s @ keystroke_appended e s)"
    using Cons.prems by (simp add: step_keys)
  have "screen_texts (step ocr e s) \<noteq> keystrokes (step ocr e s)"
    using Cons.prems by simp
  moreover have "length (screen_text_buffer (step ocr e s)) \<le> 30"
    by (simp add: 1 length_last_n)
  moreover have "length (keystroke_buffer (step ocr e s)) \<le> 100"
    by (simp add: 2 length_last_n)
  ultimately show ?case
    using Cons.IH [of "step ocr e s"] by (simp add: 1 2 last_n_last_n)
qed

lemma init_app_buffers:
  "screen_texts (init_app now) \<noteq> keystrokes (init_app now)"
  "length (screen_text_buffer (init_app now)) \<le> 30"
  "length (keystroke_buffer (init_app now)) \<le> 100"
  "screen_text_buffer (init_app now) = []"
  "keystroke_buffer (init_app now) = []"
  by (simp_all add: init_app_def screen_text_buffer_def keystroke_buffer_def)

text \<open>
  C7. After every sequence of events run from the freshly built application (capture
  cycles, key presses and releases, start and stop, in any order), the screen-text buffer
  has at most 30 entries and the keystroke buffer at most 100, and each buffer is exactly
  the last 30 (respectively 100) of all the entries ever appended to it, in the order of
  their insertion.
\<close>

theorem buffers_bounded_most_recent:
  "length (screen_text_buffer (run ocr evs (init_app now))) \<le> 30 \<and>
   length (keystroke_buffer (run ocr evs (init_app now))) \<le> 100 \<and>
   screen_text_buffer (run ocr evs (init_app now)) =
     last_n 30 (screen_history ocr evs (init_app now)) \<and>
   keystroke_buffer (run ocr evs (init_app now)) =
     last_n 100 (keystroke_history ocr evs (init_app now))"
  using run_buffers [of "init_app now" ocr evs] init_app_buffers [of now]
  by (simp add: length_last_n)

subsection \<open>What the handlers pass on is never empty\<close>

lemma screen_history_nonempty:
  "e \<in> set (screen_history ocr evs s) \<Longrightarrow> nonempty_screen_entry e"
  by (induction evs arbitrary: s)
     (auto simp: screen_appended_def nonempty_screen_entry_def split: event.splits if_splits)

lemma on_key_press_out: "snd (on_key_press k t tf lg) = Some c \<Longrightarrow> c \<noteq> []"
  by (auto simp: on_key_press_def flush_buffer_def Let_def split: if_splits prod.splits)

lemma on_key_release_out: "snd (on_key_release k tf lg) = Some c \<Longrightarrow> c \<noteq> []"
  by (auto simp: on_key_release_def flush_buffer_def active_keys_def Let_def split: if_splits)

lemma stop_logger_out: "snd (stop_logger tf lg) = Some c \<Longrightarrow> c \<noteq> []"
  by (auto simp: stop_logger_def flush_buffer_def Let_def split: if_splits)

lemma keystroke_appended_nonempty:
  assumes "e \<in> set (keystroke_appended ev s)"
  shows "nonempty_keystroke_entry e"
proof -
  have "nonempty_keystroke_entry e" if "e \<in> set (flushed_entry st r)"
    and "\<And>c. snd r = Some c \<Longrightarrow> c \<noteq> []" for st r
    using that
    by (auto simp: flushed_entry_def nonempty_keystroke_entry_def split: option.splits)
  then show ?thesis
    using assms on_key_press_out on_key_release_out stop_logger_out
    by (cases ev) (auto simp: keystroke_appended_def)
qed

lemma keystroke_history_nonempty:
  "e \<in> set (keystroke_history ocr evs s) \<Longrightarrow> nonempty_keystroke_entry e"
  by (induction evs arbitrary: s) (auto dest: keystroke_appended_nonempty)

text \<open>
  C10. After every sequence of events run from the freshly built application, every entry
  of the screen-text buffer is a screen-text entry with non-empty text and every entry of
  the keystroke buffer is a keystroke entry with non-empty content. A flush of an empty
  pending text calls no callback, and a capture cycle whose extracted text is empty leaves
  the screen-text buffer as it was.
\<close>

theorem stored_entries_nonempty:
  "(\<forall>e \<in> set (screen_text_buffer (run ocr evs (init_app now))). nonempty_screen_entry e) \<and>
   (\<forall>e \<in> set (keystroke_buffer (run ocr evs (init_app now))). nonempty_keystroke_entry e) \<and>
   (buffer lg = [] \<longrightarrow> snd (flush_buffer now' lg) = None) \<and>
   (extract_text ocr image_opt = [] \<longrightarrow>
      screen_text_buffer (capture_cycle ocr image_opt st s) = screen_text_buffer s)"
proof -
  have a: "set (screen_text_buffer (run ocr evs (init_app now))) \<subseteq>
      set (screen_history ocr evs (init_app now))"
    using run_buffers [of "init_app now" ocr evs] init_app_buffers [of now] set_last_n [of 30]
    by simp
  have b: "set (keystroke_buffer (run ocr evs (init_app now))) \<subseteq>
      set (keystroke_history ocr evs (init_app now))"
    using run_buffers [of "init_app now" ocr evs] init_app_buffers [of now] set_last_n [of 100]
    by simp
  have c: "\<forall>e \<in> set (screen_text_buffer (run ocr evs (init_app now))). nonempty_screen_entry e"
    using a screen_history_nonempty by blast
  have d: "\<forall>e \<in> set (keystroke_buffer (run ocr evs (init_app now))). nonempty_keystroke_entry e"
    using b keystroke_history_nonempty by blast
  show ?thesis
    using c d by (simp add: flush_buffer_def capture_cycle_def screen_text_buffer_def)
qed

lemma run_sample:
  "screen_text_buffer (run text_ocr sample_run (init_app 0)) = [ScreenTextEntry ''U'' ''A'']"
  "keystroke_buffer (run text_ocr sample_run (init_app 0)) = [KeystrokeEntry ''V'' ''x'']"
  by (simp_all add: sample_run_def screen_text_buffer_def keystroke_buffer_def capture_cycle_def
      extract_text_def text_ocr_def py_split_def isspace_def eval_defs)

theorem stored_entries_nonempty_witness:
  "ScreenTextEntry ''U'' ''A'' \<in> set (screen_text_buffer (run text_ocr sample_run (init_app 0))) \<and>
   nonempty_screen_entry (ScreenTextEntry ''U'' ''A'') \<and>
   KeystrokeEntry ''V'' ''x'' \<in> set (keystroke_buffer (run text_ocr sample_run (init_app 0))) \<and>
   nonempty_keystroke_entry (KeystrokeEntry ''V'' ''x'') \<and>
   buffer (init_logger 0) = [] \<and> snd (flush_buffer 1 (init_logger 0)) = None \<and>
   extract_text text_ocr (Some ''  '') = [] \<and>
   screen_text_buffer (capture_cycle text_ocr (Some ''  '') ''W'' (init_app 0)) =
     screen_text_buffer (init_app 0)"
proof -
  have h: "buffer (init_logger 0) = []" "extract_text text_ocr (Some ''  '') = []"
    by (simp_all add: init_logger_def extract_text_def text_ocr_def py_split_def isspace_def)
  from stored_entries_nonempty
    [of text_ocr sample_run 0 "init_logger 0" 1 "Some ''  ''" "''W''" "init_app 0"]
  show ?thesis
    using h by (simp add: run_sample)
qed

text \<open>
  C1, as the code has it. The data block of a query holds the references of the two live
  lists, not copies. Read at the state in which it was built, its \<open>screen_texts\<close> and
  \<open>recent_keystrokes\<close> are the contents of the two buffers; building it changes no
  buffer; and after any further events it reads as the present contents of the buffers,
  so every later append or eviction shows in it.
\<close>

theorem data_block_reads_live_buffers:
  "block_screen_texts s (submit_query q uid st s) = screen_text_buffer s \<and>
   block_recent_keystrokes s (submit_query q uid st s) = keystroke_buffer s \<and>
   block_screen_texts (run ocr evs s) (submit_query q uid st s) =
     screen_text_buffer (run ocr evs s) \<and>
   block_recent_keystrokes (run ocr evs s) (submit_query q uid st s) =
     keystroke_buffer (run ocr evs s)"
  by (simp add: block_screen_texts_def block_recent_keystrokes_def submit_query_def
      screen_text_buffer_def keystroke_buffer_def)

text \<open>
  C1 as stated fails: a data block built when the screen-text buffer is empty holds one
  entry after the next capture cycle.
\<close>

theorem data_block_changes_after_capture:
  "block_screen_texts (step text_ocr Start (init_app 0))
     (submit_query ''q'' None ''T'' (step text_ocr Start (init_app 0))) = [] \<and>
   block_screen_texts
     (step text_ocr (Capture (Some ''A'') ''U'') (step text_ocr Start (init_app 0)))
     (submit_query ''q'' None ''T'' (step text_ocr Start (init_app 0))) =
     [ScreenTextEntry ''U'' ''A'']"
  by (simp add: block_screen_texts_def submit_query_def init_app_def capture_cycle_def
      extract_text_def text_ocr_def py_split_def isspace_def Let_def)

section \<open>The password scenario\<close>

text \<open>A press that triggers no flush only appends to the pending text.\<close>

lemma press_char_quiet:
  assumes "running (keystroke_logger s)"
    and "t - last_timestamp (keystroke_logger s) \<le> 1"
    and "c \<noteq> CHR ''[''"
    and "length (buffer (keystroke_logger s)) < 20"
  shows "step ocr (KeyPress (char_key c) t tf st) s =
           s\<lparr>keystroke_logger := fst (append_key (char_key c) (keystroke_logger s))\<rparr>"
proof -
  let ?lg = "keystroke_logger s"
  obtain lg2 key_str where a: "append_key (char_key c) ?lg = (lg2, key_str)"
    by (cases "append_key (char_key c) ?lg")
  have k: "key_str = ''*'' \<or> key_str = [c]"
    using a by (auto simp: append_key_def Let_def key_token_def char_key_def)
  have b: "buffer lg2 = buffer ?lg @ key_str" "last_timestamp lg2 = last_timestamp ?lg"
    using a by (auto simp: append_key_def Let_def check_sensitive_context_eq)
  have "on_key_press (char_key c) t tf ?lg = (lg2, None)"
    using assms k b by (auto simp: on_key_press_def a)
  then show ?thesis
    by (simp add: a with_logger_def deliver_def)
qed

lemma press_literal:
  assumes "running (keystroke_logger s)"
    and "\<not> sensitive_mode (keystroke_logger s)"
    and "\<not> marker_present (buffer (keystroke_logger s))"
    and "t - last_timestamp (keystroke_logger s) \<le> 1"
    and "c \<noteq> CHR ''[''"
    and "length (buffer (keystroke_logger s)) < 20"
  shows "step ocr (KeyPress (char_key c) t tf st) s =
           s\<lparr>keystroke_logger :=
               (keystroke_logger s)\<lparr>buffer := buffer (keystroke_logger s) @ [c]\<rparr>\<rparr>"
proof -
  have "append_key (char_key c) (keystroke_logger s) =
      ((keystroke_logger s)\<lparr>buffer := buffer (keystroke_logger s) @ [c]\<rparr>, [c])"
    using assms(2,3) by (simp add: append_key_literal key_token_def char_key_def)
  then show ?thesis
    using press_char_quiet [OF assms(1,4,5,6), of ocr tf st] by (simp del: step.simps)
qed

lemma press_masked:
  assumes "running (keystroke_logger s)"
    and "sensitive_mode (keystroke_logger s) \<or> marker_present (buffer (keystroke_logger s))"
    and "t - last_timestamp (keystroke_logger s) \<le> 1"
    and "length (buffer (keystroke_logger s)) < 20"
  shows "step ocr (KeyPress k t tf st) s =
           s\<lparr>keystroke_logger := (keystroke_logger s)\<lparr>sensitive_mode := True,
               buffer := buffer (keystroke_logger s) @ ''*''\<rparr>\<rparr>"
  using assms
  by (simp add: on_key_press_def append_key_masked with_logger_def deliver_def)

lemma eleven_elements:
  assumes "length (env :: 'a list) = 11"
  obtains e1 e2 e3 e4 e5 e6 e7 e8 e9 e10 e11
  where "env = [e1, e2, e3, e4, e5, e6, e7, e8, e9, e10, e11]"
  using assms by (auto simp: eval_nat_numeral length_Suc_conv)

text \<open>
  C6. Let the logger be running with its callback, in normal mode, with empty pending
  text. Let the eleven keys \<open>p,a,s,s,w,o,r,d,1,2,3\<close> be pressed, each at a clock reading
  at most 1.0 after the last flush. Then no entry is produced by the presses, nothing but
  the logger changes, the pending text is \<open>password***\<close> and the logger is in sensitive
  mode; the next flush passes exactly \<open>password***\<close> to the callback, and after \<open>stop\<close>
  the newest entry of the keystroke buffer has that content.
\<close>

theorem password_scenario:
  assumes "running (keystroke_logger s)"
    and "callback (keystroke_logger s) \<noteq> None"
    and "buffer (keystroke_logger s) = []"
    and "\<not> sensitive_mode (keystroke_logger s)"
    and "length env = 11"
    and "\<forall>(t, tf, st) \<in> set env. t - last_timestamp (keystroke_logger s) \<le> 1"
  shows "run ocr (press_chars ''password123'' env) s =
           s\<lparr>keystroke_logger :=
               (keystroke_logger s)\<lparr>buffer := ''password***'', sensitive_mode := True\<rparr>\<rparr> \<and>
         snd (flush_buffer now (keystroke_logger (run ocr (press_chars ''password123'' env) s))) =
           Some ''password***'' \<and>
         last (keystroke_buffer
           (step ocr (Stop now st') (run ocr (press_chars ''password123'' env) s))) =
           KeystrokeEntry st' ''password***''"
proof -
  obtain e1 e2 e3 e4 e5 e6 e7 e8 e9 e10 e11
    where env: "env = [e1, e2, e3, e4, e5, e6, e7, e8, e9, e10, e11]"
    using assms(5) by (rule eleven_elements)
  let ?lg = "keystroke_logger s"
  let ?r = "run ocr (press_chars ''password123'' env) s"
  have r: "?r = s\<lparr>keystroke_logger := ?lg\<lparr>buffer := ''password***'', sensitive_mode := True\<rparr>\<rparr>"
    using assms(1,3,4,6) unfolding env press_chars_def
    by (simp add: split_beta press_literal press_masked marker_present_def
        sensitive_prefixes_def lower_def lower_char_def del: step.simps)
  have k: "keystrokes (on_keystroke st' c s0) = keystrokes s0" for c s0
    by (simp add: on_keystroke_def Let_def)
  have l: "last (heap (on_keystroke st' c s0) (keystrokes s0)) = KeystrokeEntry st' c" for c s0
    by (cases "heap s0 (keystrokes s0)") (simp_all add: on_keystroke_def Let_def)
  have f: "snd (flush_buffer now (keystroke_logger ?r)) = Some ''password***''"
    using assms(2) by (simp add: r flush_buffer_def)
  have "stop_logger now (keystroke_logger ?r) =
      ((keystroke_logger s)\<lparr>buffer := [], sensitive_mode := True, running := False,
          last_timestamp := now\<rparr>, Some ''password***'')"
    using assms(2) by (simp add: r stop_logger_def flush_buffer_def Let_def)
  then have "\<exists>s0. step ocr (Stop now st') ?r = on_keystroke st' ''password***'' s0"
    by (auto simp: with_logger_def deliver_def)
  then obtain s0 where "step ocr (Stop now st') ?r = on_keystroke st' ''password***'' s0" ..
  then have "last (keystroke_buffer (step ocr (Stop now st') ?r)) =
      KeystrokeEntry st' ''password***''"
    by (simp only: keystroke_buffer_def k l)
  with r f show ?thesis by simp
qed

theorem password_scenario_witness:
  "running (keystroke_logger (step no_ocr Start (init_app 0))) \<and>
   callback (keystroke_logger (step no_ocr Start (init_app 0))) \<noteq> None \<and>
   buffer (keystroke_logger (step no_ocr Start (init_app 0))) = [] \<and>
   \<not> sensitive_mode (keystroke_logger (step no_ocr Start (init_app 0))) \<and>
   length quick_env = 11 \<and>
   buffer (keystroke_logger
     (run no_ocr (press_chars ''password123'' quick_env) (step no_ocr Start (init_app 0)))) =
     ''password***'' \<and>
   last (keystroke_buffer (step no_ocr (Stop 2 ''V'')
     (run no_ocr (press_chars ''password123'' quick_env) (step no_ocr Start (init_app 0))))) =
     KeystrokeEntry ''V'' ''password***''"
proof -
  let ?s = "step no_ocr Start (init_app 0)"
  have h: "running (keystroke_logger ?s)" "callback (keystroke_logger ?s) \<noteq> None"
    "buffer (keystroke_logger ?s) = []" "\<not> sensitive_mode (keystroke_logger ?s)"
    "length quick_env = 11"
    "\<forall>(t, tf, st) \<in> set quick_env. t - last_timestamp (keystroke_logger ?s) \<le> 1"
    by (simp_all add: init_app_def init_logger_def start_logger_def quick_env_def)
  note ps = password_scenario [OF h, of no_ocr 2 "''V''"]
  have "run no_ocr (press_chars ''password123'' quick_env) ?s =
      ?s\<lparr>keystroke_logger :=
          (keystroke_logger ?s)\<lparr>buffer := ''password***'', sensitive_mode := True\<rparr>\<rparr>"
    using ps by blast
  then have c: "buffer (keystroke_logger
      (run no_ocr (press_chars ''password123'' quick_env) ?s)) = ''password***''"
    by (simp del: step.simps)
  have d: "last (keystroke_buffer (step no_ocr (Stop 2 ''V'')
      (run no_ocr (press_chars ''password123'' quick_env) ?s))) =
      KeystrokeEntry ''V'' ''password***''"
    using ps by blast
  show ?thesis
    using h(1-5) c d by blast
qed

section \<open>Text extraction\<close>

lemma isspace_space [simp]: "isspace CHR '' ''"
  by (simp add: isspace_def)

lemma trim_right_Nil [simp]: "trim_right [] = []"
  by (simp add: trim_right_def)

lemma trim_right_Cons:
  "trim_right (c # cs) = (if isspace c \<and> trim_right cs = [] then [] else c # trim_right cs)"
  by (auto simp: trim_right_def dropWhile_append)

lemma split_from_no_empty_word: "[] \<notin> set (split_from w t)"
  by (induction t arbitrary: w) auto

lemma py_join_Cons:
  "py_join sep (w # ws) = (if ws = [] then w else w @ sep @ py_join sep ws)"
  by (cases ws) simp_all

lemma py_join_eq_Nil: "[] \<notin> set ws \<Longrightarrow> py_join sep ws = [] \<longleftrightarrow> ws = []"
  by (cases ws) (auto simp: py_join_Cons)

text \<open>
  The words joined by single spaces, with a word \<open>w\<close> already begun and with none: both
  statements go through the induction together, each step using the other.
\<close>

lemma join_split_from:
  "(w \<noteq> [] \<longrightarrow> py_join '' '' (split_from w t) = w @ trim_right (collapse_runs t)) \<and>
   py_join '' '' (split_from [] t) = trim_right (collapse_runs (dropWhile isspace t))"
proof (induction t arbitrary: w)
  case Nil
  then show ?case by simp
next
  case (Cons c cs)
  show ?case
  proof (cases "isspace c")
    case True
    have e: "py_join '' '' (split_from [] cs) = trim_right (collapse_runs (dropWhile isspace cs))"
      using Cons.IH by blast
    have n: "split_from [] cs = [] \<longleftrightarrow> trim_right (collapse_runs (dropWhile isspace cs)) = []"
      using e py_join_eq_Nil [OF split_from_no_empty_word, of "'' ''" "[]" cs] by simp
    show ?thesis
      using True e n by (auto simp: py_join_Cons trim_right_Cons)
  next
    case False
    have "py_join '' '' (split_from (w @ [c]) cs) = (w @ [c]) @ trim_right (collapse_runs cs)"
      using Cons.IH [of "w @ [c]"] by simp
    moreover have "py_join '' '' (split_from [c] cs) = [c] @ trim_right (collapse_runs cs)"
      using Cons.IH [of "[c]"] by simp
    ultimately show ?thesis
      using False by (simp add: trim_right_Cons)
  qed
qed

lemma dropWhile_collapse_runs:
  "dropWhile isspace (collapse_runs s) = collapse_runs (dropWhile isspace s)"
proof (cases s)
  case Nil
  then show ?thesis by simp
next
  case (Cons c cs)
  have d: "dropWhile isspace (collapse_runs u) = collapse_runs u"
    if "u = [] \<or> \<not> isspace (hd u)" for u
    using that by (cases u) auto
  have "dropWhile isspace cs = [] \<or> \<not> isspace (hd (dropWhile isspace cs))"
    using hd_dropWhile [of isspace cs] by blast
  then show ?thesis
    using Cons d [of "dropWhile isspace cs"] d [of s] by auto
qed

lemma join_split_normalizes: "py_join '' '' (py_split t) = spec_normalize t"
  using join_split_from [of "[]" t]
  by (simp add: py_split_def spec_normalize_def trim_def dropWhile_collapse_runs)

lemma spec_normalize_example:
  "spec_normalize [CHR '' '', CHR 0x09, CHR ''a'', CHR 0x0A, CHR 0x0D, CHR ''b'', CHR ''c'', CHR '' '']
     = ''a bc''"
  by (simp add: spec_normalize_def trim_def trim_right_def isspace_def)

text \<open>
  C8. For every OCR engine: with no image, \<open>extract_text\<close> returns the empty string,
  whatever the engine would do; with an image on which the engine fails, it returns the
  empty string; with an image on which the engine returns a text, it returns that text
  with every run of whitespace collapsed to one space and the whitespace at both ends
  trimmed.
\<close>

theorem extract_text_contract:
  "extract_text ocr None = [] \<and>
   extract_text ocr (Some img) =
     (case ocr img of Inl e \<Rightarrow> [] | Inr t \<Rightarrow> spec_normalize t)"
  by (simp add: extract_text_def join_split_normalizes split: sum.splits)

end
